theory Spec2Isabelle
  imports Main "HOL-Library.Word"
begin

section \<open>The triggerhappy daemon (thd.c): data\<close>

text \<open>
  The daemon keeps four file-local variables: the device list \<open>devs\<close>, the path of the
  command FIFO \<open>command_pipe\<close> (a null pointer when none is configured), its descriptor
  \<open>cmdfd\<close> (\<open>-1\<close> when closed) and the command buffer \<open>cmdbuffer[MAXCMD]\<close>. The buffer
  is only ever accessed through the C string functions, so the model keeps its string
  value: the bytes before the first NUL.

  Two further fields do not exist in the C program. \<open>open_results\<close> is the environment:
  the results the kernel gives to the coming calls of open(2), in order (\<open>None\<close> is a
  failure, that is the result \<open>-1\<close>; when the list is used up every further open fails).
  \<open>trace\<close> records, oldest first, the system calls, the messages on stderr and the calls
  into the other modules (devices, keystate, trigger) that the code makes.
\<close>

record device =
  devname :: string
  fd :: int

record input_event =
  ev_sec :: int
  ev_usec :: int
  ev_type :: "16 word"
  ev_code :: "16 word"
  ev_value :: "32 word"

datatype message =
    Adding_device string
  | Removing_device string
  | Error_reading_device string
  | Error_opening string
  | Select_failed
  | No_input_given

datatype call =
    SysOpen string int
  | SysClose int
  | SysRead int int
  | Stderr message
  | Change_keystate input_event
  | Print_event string input_event
  | Print_keystate
  | Run_triggers "16 word" "16 word" "32 word"

record daemon =
  devs :: "device list"
  command_pipe :: "string option"
  cmdfd :: int
  cmdbuffer :: string
  dump_events :: bool
  open_results :: "nat option list"
  trace :: "call list"

definition MAXCMD :: int where
  "MAXCMD = 1024"

definition NUL :: char where
  "NUL = CHR 0x00"

definition NL :: char where
  "NL = CHR 0x0A"

text \<open>The event classes of \<open>linux/input.h\<close> and the size of \<open>struct input_event\<close> on a
  64-bit Linux (two longs, two 16-bit fields, one 32-bit field).\<close>

definition EV_KEY :: "16 word" where
  "EV_KEY = 0x01"

definition EV_SW :: "16 word" where
  "EV_SW = 0x05"

definition sizeof_input_event :: int where
  "sizeof_input_event = 24"

definition emit :: "call list \<Rightarrow> daemon \<Rightarrow> daemon" where
  "emit cs st = st\<lparr>trace := trace st @ cs\<rparr>"

section \<open>The environment: open(2) and read(2)\<close>

definition sys_open :: "string \<Rightarrow> daemon \<Rightarrow> int \<times> daemon" where
  "sys_open path st =
     (let r = (case open_results st of [] \<Rightarrow> -1 | None # _ \<Rightarrow> -1 | Some n # _ \<Rightarrow> int n)
      in (r, st\<lparr>open_results := drop 1 (open_results st), trace := trace st @ [SysOpen path r]\<rparr>))"

text \<open>
  What a read(2) on the command FIFO finds: an error such as EAGAIN (\<open>Read_fails\<close>), or
  the bytes that can be read now (\<open>Read_gets\<close>; none at all is the end of file, every
  writer has closed). A read of zero bytes returns 0 whatever the FIFO holds.
\<close>

datatype pipe_read = Read_fails | Read_gets string

definition sys_read :: "pipe_read \<Rightarrow> nat \<Rightarrow> int \<times> string" where
  "sys_read inp count =
     (if count = 0 then (0, [])
      else case inp of
             Read_fails \<Rightarrow> (-1, [])
           | Read_gets bytes \<Rightarrow> (int (length (take count bytes)), take count bytes))"

section \<open>The device registry (devices.c)\<close>

text \<open>
  Modelled from the spec: \<open>add_device\<close>, \<open>remove_device\<close> and \<open>count_devices\<close> are
  defined in devices.c, which is not among the sources. Section 4.1 of the specification:
  add opens the path and, on success, appends a new device at the tail; on failure it
  logs and leaves the registry unchanged. remove closes the descriptor of the entry with
  that path and unlinks it; it does nothing when the path is absent. count is the number
  of entries.
\<close>

definition add_device :: "string \<Rightarrow> daemon \<Rightarrow> daemon" where
  "add_device path st =
     (case sys_open path st of
        (r, st1) \<Rightarrow>
          if r < 0 then emit [Stderr (Error_opening path)] st1
          else st1\<lparr>devs := devs st1 @ [\<lparr>devname = path, fd = r\<rparr>]\<rparr>)"

fun unlink :: "string \<Rightarrow> device list \<Rightarrow> device list" where
  "unlink path [] = []"
| "unlink path (d # ds) = (if devname d = path then ds else d # unlink path ds)"

definition remove_device :: "string \<Rightarrow> daemon \<Rightarrow> daemon" where
  "remove_device path st =
     (case find (\<lambda>d. devname d = path) (devs st) of
        None \<Rightarrow> st
      | Some d \<Rightarrow> (emit [SysClose (fd d)] st)\<lparr>devs := unlink path (devs st)\<rparr>)"

definition count_devices :: "device list \<Rightarrow> int" where
  "count_devices list = int (length list)"

section \<open>Reading one event (read_event)\<close>

text \<open>
  Modelled from the spec: the Keystate Tracker (\<open>change_keystate\<close>, \<open>print_keystate\<close>),
  the Trigger Engine (\<open>run_triggers\<close>) and the Event Name Resolver used by
  \<open>print_event\<close> are other modules; sections 4.4 to 4.6 give only their interfaces. A
  call to one of them is recorded in the trace. They cannot reach the variables of
  thd.c, which are all static.
\<close>

definition change_keystate :: "input_event \<Rightarrow> daemon \<Rightarrow> daemon" where
  "change_keystate ev st = emit [Change_keystate ev] st"

definition print_event :: "string \<Rightarrow> input_event \<Rightarrow> daemon \<Rightarrow> daemon" where
  "print_event dev ev st = emit [Print_event dev ev] st"

definition print_keystate :: "daemon \<Rightarrow> daemon" where
  "print_keystate st = emit [Print_keystate] st"

definition run_triggers :: "16 word \<Rightarrow> 16 word \<Rightarrow> 32 word \<Rightarrow> daemon \<Rightarrow> daemon" where
  "run_triggers t c v st = emit [Run_triggers t c v] st"

text \<open>
  \<open>read_event dev (n, ev) st\<close>: the read(2) on the device returns \<open>n\<close> and leaves \<open>ev\<close> in
  the local structure. The result is the return value and the new state.
\<close>

definition read_event :: "device \<Rightarrow> int \<times> input_event \<Rightarrow> daemon \<Rightarrow> int \<times> daemon" where
  "read_event dev r st =
     (case r of
        (n, ev) \<Rightarrow>
          (let st1 = emit [SysRead (fd dev) sizeof_input_event] st in
           if n \<noteq> sizeof_input_event then
             (1, emit [Stderr (Error_reading_device (devname dev))] st1)
           else if ev_type ev = EV_KEY \<or> ev_type ev = EV_SW then
             (let st2 = change_keystate ev st1;
                  st3 = (if dump_events st2 then print_keystate (print_event (devname dev) ev st2)
                         else st2)
              in (0, run_triggers (ev_type ev) (ev_code ev) (ev_value ev) st3))
           else (0, st1)))"

section \<open>The command channel\<close>

text \<open>
  Undefined behaviour of the C program is a value of its own, a \<open>fault\<close>: the array
  \<open>buf\<close> of \<open>read_command_pipe\<close> declared with a size below one, \<open>strcat\<close> reading past
  the end of \<open>buf\<close>, \<open>strcpy\<close> between overlapping parts of \<open>cmdbuffer\<close>, \<open>free\<close> of a
  pointer that \<open>malloc\<close> did not return, and a null pointer given to \<open>fprintf\<close> for
  \<open>%s\<close>. Nothing is said about the state after a fault.
\<close>

datatype fault = Bad_array_size | No_terminator | Overlapping_copy | Free_of_optarg | Null_path

text \<open>
  \<open>open_cmd\<close>. When the open fails, the C code prints a message and calls
  \<open>free(command_pipe)\<close>. The only value that \<open>command_pipe\<close> is ever given is \<open>optarg\<close>
  (in \<open>main\<close>), a pointer into the argument vector and not a block of the heap: this
  \<open>free\<close> is undefined, and the two statements behind it, \<open>command_pipe = NULL\<close> and
  \<open>return 1\<close>, are not reached in any defined run. With a null \<open>command_pipe\<close> the open
  fails as well (EFAULT) and the message is printed from a null pointer.
\<close>

definition open_cmd :: "daemon \<Rightarrow> fault + int \<times> daemon" where
  "open_cmd st =
     (case command_pipe st of
        None \<Rightarrow> Inl Null_path
      | Some p \<Rightarrow>
          (case sys_open p st of
             (r, st1) \<Rightarrow>
               (let st2 = st1\<lparr>cmdfd := r\<rparr> in
                if r < 0 then Inl Free_of_optarg
                else Inr (0, st2))))"

text \<open>
  \<open>strtok_c s\<close> is one call of \<open>strtok\<close> with the delimiters space and tab on the string
  \<open>s\<close>: it skips leading delimiters; at the end of the string it returns the null pointer
  (\<open>None\<close>); otherwise the token runs to the next delimiter or the end, and the next call
  continues after that delimiter.
\<close>

definition delim :: "char \<Rightarrow> bool" where
  "delim c \<longleftrightarrow> c = CHR '' '' \<or> c = CHR 0x09"

definition strtok_c :: "string \<Rightarrow> (string \<times> string) option" where
  "strtok_c s =
     (let s1 = dropWhile delim s in
      if s1 = [] then None
      else Some (takeWhile (\<lambda>c. \<not> delim c) s1, drop 1 (dropWhile (\<lambda>c. \<not> delim c) s1)))"

definition process_commandline :: "string \<Rightarrow> daemon \<Rightarrow> daemon" where
  "process_commandline line st =
     (case strtok_c line of
        None \<Rightarrow> st
      | Some (opr, rest) \<Rightarrow>
          (let dev = map_option fst (strtok_c rest) in
           if opr = ''ADD'' \<and> dev \<noteq> None then
             add_device (the dev) (remove_device (the dev) (emit [Stderr (Adding_device (the dev))] st))
           else if opr = ''REMOVE'' \<and> dev \<noteq> None then
             remove_device (the dev) (emit [Stderr (Removing_device (the dev))] st)
           else st))"

text \<open>
  The loop at the end of \<open>read_command_pipe\<close>: while the buffer holds a newline, the
  line before it is processed and the bytes after it are copied to the front. The test
  \<open>nl < cmdbuffer+MAXCMD\<close> of the C code compares the position of the newline with the
  size of the array. \<open>strcpy(cmdbuffer, nl+1)\<close> copies the tail and its terminator, one
  byte more than the tail is long, from behind the newline to the start of the same
  array. Source and destination overlap when the tail is longer than the line before the
  newline; \<open>strcpy\<close> is then undefined, \<open>Overlapping_copy\<close>.
\<close>

function scan_lines :: "daemon \<Rightarrow> fault + daemon" where
  "scan_lines st =
     (if NL \<in> set (cmdbuffer st) then
        (let line = takeWhile (\<lambda>c. c \<noteq> NL) (cmdbuffer st);
             tail = drop 1 (dropWhile (\<lambda>c. c \<noteq> NL) (cmdbuffer st));
             st1 = process_commandline line st
         in if int (length line) < MAXCMD then
              (if length line < length tail then Inl Overlapping_copy
               else scan_lines (st1\<lparr>cmdbuffer := tail\<rparr>))
            else scan_lines (st1\<lparr>cmdbuffer := []\<rparr>))
      else Inr st)"
  by pat_completeness auto
termination
proof (relation "measure (\<lambda>st. length (cmdbuffer st))")
  show "wf (measure (\<lambda>st. length (cmdbuffer st)))"
    by simp
next
  fix st :: daemon and line tail st1
  assume nl: "NL \<in> set (cmdbuffer st)"
    and t: "tail = drop 1 (dropWhile (\<lambda>c. c \<noteq> NL) (cmdbuffer st))"
  from nl have ne: "dropWhile (\<lambda>c. c \<noteq> NL) (cmdbuffer st) \<noteq> []"
    by (simp add: dropWhile_eq_Nil_conv)
  have le: "length (dropWhile (\<lambda>c. c \<noteq> NL) (cmdbuffer st)) \<le> length (cmdbuffer st)"
    by (rule length_dropWhile_le)
  from ne le t have "length tail < length (cmdbuffer st)"
    by (cases "dropWhile (\<lambda>c. c \<noteq> NL) (cmdbuffer st)") auto
  then show "(st1\<lparr>cmdbuffer := tail\<rparr>, st) \<in> measure (\<lambda>st. length (cmdbuffer st))"
    by simp
next
  fix st :: daemon and line tail st1
  assume nl: "NL \<in> set (cmdbuffer st)"
  then have "0 < length (cmdbuffer st)"
    by (cases "cmdbuffer st") auto
  then show "(st1\<lparr>cmdbuffer := []\<rparr>, st) \<in> measure (\<lambda>st. length (cmdbuffer st))"
    by simp
qed

declare scan_lines.simps [simp del]

text \<open>
  \<open>read_command_pipe inp stack st\<close>. \<open>inp\<close> is what the read(2) finds. \<open>stack\<close> lists the
  bytes that the automatic array \<open>buf[rem]\<close> holds on entry: the C code does not
  initialise it, so they are whatever the stack held. read(2) overwrites the first
  \<open>n_done\<close> bytes and writes no terminator; \<open>strcat\<close> then appends the bytes of \<open>buf\<close> up
  to the first NUL. When the array holds no NUL (or \<open>stack\<close> does not determine one),
  \<open>strcat\<close> runs past the end of the array: \<open>No_terminator\<close>. An array of size zero or
  less, \<open>Bad_array_size\<close>, needs a buffer of \<open>MAXCMD\<close> bytes or more, which a C string in
  \<open>cmdbuffer\<close> never has.
\<close>

definition read_command_pipe :: "pipe_read \<Rightarrow> string \<Rightarrow> daemon \<Rightarrow> fault + daemon" where
  "read_command_pipe inp stack st =
     (let len = int (length (cmdbuffer st));
          rem = MAXCMD - len
      in if rem < 1 then Inl Bad_array_size
         else
           (case sys_read inp (nat (rem - 1)) of
              (n_done, got) \<Rightarrow>
                (let st1 = emit [SysRead (cmdfd st) (rem - 1)] st;
                     buf = take (nat rem) (got @ drop (length got) stack)
                 in if n_done = 0 then
                      (case open_cmd (emit [SysClose (cmdfd st1)] (st1\<lparr>cmdbuffer := []\<rparr>)) of
                         Inl f \<Rightarrow> Inl f
                       | Inr (r, st2) \<Rightarrow> Inr st2)
                    else if NUL \<notin> set buf then Inl No_terminator
                    else scan_lines
                           (st1\<lparr>cmdbuffer := cmdbuffer st1 @ takeWhile (\<lambda>c. c \<noteq> NUL) buf\<rparr>))))"

section \<open>The event loop\<close>

fun add_to_fdset_loop :: "int \<Rightarrow> int set \<Rightarrow> device list \<Rightarrow> int \<times> int set" where
  "add_to_fdset_loop m fds [] = (m, fds)"
| "add_to_fdset_loop m fds (d # ds) =
     add_to_fdset_loop (if fd d > m then fd d else m) (insert (fd d) fds) ds"

definition add_to_fdset :: "int set \<Rightarrow> device list \<Rightarrow> int \<times> int set" where
  "add_to_fdset fds list = add_to_fdset_loop 0 fds list"

text \<open>
  \<open>process_devices rfds rd st\<close>: \<open>rfds\<close> is the descriptor set that select(2) left, and
  \<open>rd n\<close> is what the read(2) on descriptor \<open>n\<close> delivers in this pass (its return value
  and the structure it leaves). The C loop walks the list \<open>devs\<close> itself; the list only
  changes in the branch that returns.
\<close>

fun process_devices_from :: "int set \<Rightarrow> (int \<Rightarrow> int \<times> input_event) \<Rightarrow> device list \<Rightarrow> daemon \<Rightarrow> daemon" where
  "process_devices_from rfds rd [] st = st"
| "process_devices_from rfds rd (d # ds) st =
     (if fd d \<in> rfds then
        (case read_event d (rd (fd d)) st of
           (r, st1) \<Rightarrow>
             if r \<noteq> 0 then remove_device (devname d) st1
             else process_devices_from rfds rd ds st1)
      else process_devices_from rfds rd ds st)"

definition process_devices :: "int set \<Rightarrow> (int \<Rightarrow> int \<times> input_event) \<Rightarrow> daemon \<Rightarrow> daemon" where
  "process_devices rfds rd st = process_devices_from rfds rd (devs st) st"

text \<open>
  One iteration of the loop of \<open>process_events\<close> against what the environment does in
  it: the result of select(2) (an error, the timeout after 5 seconds, or the set of
  ready descriptors), the device reads, the read on the command FIFO and the contents
  of the stack array of \<open>read_command_pipe\<close>. select(2) leaves in \<open>rfds\<close> those of the
  descriptors put into it that are ready. The call itself is not recorded in the trace.
\<close>

datatype select_result = Select_error | Select_timeout | Select_ready "int set"

record cycle =
  sel :: select_result
  dev_reads :: "int \<Rightarrow> int \<times> input_event"
  pipe_in :: pipe_read
  stack_bytes :: string

definition loop_body :: "cycle \<Rightarrow> daemon \<Rightarrow> fault + daemon" where
  "loop_body c st =
     (let fds0 = snd (add_to_fdset {} (devs st));
          fds = (if cmdfd st \<noteq> -1 then insert (cmdfd st) fds0 else fds0)
      in case sel c of
           Select_error \<Rightarrow> Inr (emit [Stderr Select_failed] st)
         | Select_timeout \<Rightarrow> Inr st
         | Select_ready ready \<Rightarrow>
             (let rfds = fds \<inter> ready;
                  st1 = process_devices rfds (dev_reads c) st
              in if cmdfd st1 \<noteq> -1 \<and> cmdfd st1 \<in> rfds
                 then read_command_pipe (pipe_in c) (stack_bytes c) st1
                 else Inr st1))"

text \<open>
  The loop runs against a list of cycles. \<open>Finished\<close>: the loop condition became false
  and the function returned. \<open>Running\<close>: the condition still holds when the list is used
  up; the daemon waits in select(2). \<open>Undefined\<close>: undefined behaviour was reached.
\<close>

datatype 'a run = Finished 'a | Running daemon | Undefined fault

fun process_events :: "cycle list \<Rightarrow> daemon \<Rightarrow> daemon run" where
  "process_events [] st =
     (if count_devices (devs st) > 0 \<or> cmdfd st \<noteq> -1 then Running st else Finished st)"
| "process_events (c # cs) st =
     (if count_devices (devs st) > 0 \<or> cmdfd st \<noteq> -1 then
        (case loop_body c st of
           Inl f \<Rightarrow> Undefined f
         | Inr st1 \<Rightarrow> process_events cs st1)
      else Finished st)"

text \<open>
  \<open>start_readers paths cs st\<close>: \<open>paths\<close> are the positional arguments
  \<open>argv[start..argc-1]\<close>; the result is the exit status with the final state.
\<close>

definition start_readers :: "string list \<Rightarrow> cycle list \<Rightarrow> daemon \<Rightarrow> (int \<times> daemon) run" where
  "start_readers paths cs st =
     (if paths = [] \<and> command_pipe st = None then Finished (1, emit [Stderr No_input_given] st)
      else
        (case (if command_pipe st \<noteq> None then open_cmd st else Inr (0, st)) of
           Inl f \<Rightarrow> Undefined f
         | Inr (r, st1) \<Rightarrow>
             if command_pipe st \<noteq> None \<and> cmdfd st1 < 0 then Finished (1, st1)
             else
               (case process_events cs (fold add_device paths st1) of
                  Finished s \<Rightarrow> Finished (0, s)
                | Running s \<Rightarrow> Running s
                | Undefined f \<Rightarrow> Undefined f)))"

text \<open>The state in which \<open>main\<close> calls \<open>start_readers\<close>: the static initialisers, the
  options \<open>--command\<close> and \<open>--dump\<close>, and the environment.\<close>

definition initial :: "string option \<Rightarrow> bool \<Rightarrow> nat option list \<Rightarrow> daemon" where
  "initial pipe dump env =
     \<lparr>devs = [], command_pipe = pipe, cmdfd = -1, cmdbuffer = [], dump_events = dump,
      open_results = env, trace = []\<rparr>"

section \<open>Definitions used to state the properties\<close>

text \<open>
  The tokens of a line, delimited by spaces and tabs, read off character by character:
  \<open>words_from cur s\<close> carries the token being read.
\<close>

fun words_from :: "string \<Rightarrow> string \<Rightarrow> string list" where
  "words_from cur [] = (if cur = [] then [] else [cur])"
| "words_from cur (c # cs) =
     (if delim c then (if cur = [] then words_from [] cs else cur # words_from [] cs)
      else words_from (cur @ [c]) cs)"

definition ws_tokens :: "string \<Rightarrow> string list" where
  "ws_tokens s = words_from [] s"

text \<open>The two monitored event classes, and the calls of a trace that feed a transition
  to the Keystate Tracker or to the Trigger Engine.\<close>

definition monitored :: "input_event \<Rightarrow> bool" where
  "monitored ev \<longleftrightarrow> ev_type ev = EV_KEY \<or> ev_type ev = EV_SW"

definition feeds :: "call list \<Rightarrow> call list" where
  "feeds tr =
     filter (\<lambda>c. case c of Change_keystate _ \<Rightarrow> True | Run_triggers _ _ _ \<Rightarrow> True | _ \<Rightarrow> False) tr"

text \<open>A daemon that monitors one device and has its command FIFO open.\<close>

definition one_device :: daemon where
  "one_device =
     \<lparr>devs = [\<lparr>devname = ''/dev/input/event0'', fd = 4\<rparr>], command_pipe = Some ''/tmp/thd.fifo'',
      cmdfd = 3, cmdbuffer = [], dump_events = False, open_results = [Some 5], trace = []\<rparr>"

text \<open>The descriptors on which a trace records a read(2), in order.\<close>

fun reads_of :: "call list \<Rightarrow> int list" where
  "reads_of [] = []"
| "reads_of (SysRead n k # tr) = n # reads_of tr"
| "reads_of (c # tr) = reads_of tr"

text \<open>Three monitored devices and no command channel; a pass in which the read on
  descriptor 5 is short and every other read is complete.\<close>

definition key_press :: input_event where
  "key_press = \<lparr>ev_sec = 0, ev_usec = 0, ev_type = EV_KEY, ev_code = 30, ev_value = 1\<rparr>"

definition three_devices :: daemon where
  "three_devices =
     \<lparr>devs = [\<lparr>devname = ''/dev/input/event0'', fd = 4\<rparr>, \<lparr>devname = ''/dev/input/event1'', fd = 5\<rparr>,
              \<lparr>devname = ''/dev/input/event2'', fd = 6\<rparr>],
      command_pipe = None, cmdfd = -1, cmdbuffer = [], dump_events = False,
      open_results = [], trace = []\<rparr>"

definition short_on_5 :: "int \<Rightarrow> int \<times> input_event" where
  "short_on_5 n = (if n = 5 then (8, key_press) else (sizeof_input_event, key_press))"

text \<open>The daemon of \<open>one_device\<close> when the next open(2) fails, as it does once the device
  node is gone.\<close>

definition vanished :: daemon where
  "vanished =
     \<lparr>devs = [\<lparr>devname = ''/dev/input/event0'', fd = 4\<rparr>], command_pipe = Some ''/tmp/thd.fifo'',
      cmdfd = 3, cmdbuffer = [], dump_events = False, open_results = [None], trace = []\<rparr>"

text \<open>What the open in \<open>open_cmd\<close> returns in a given state, and the calls that
  \<open>open_cmd\<close> makes when the open succeeds.\<close>

definition open_cmd_result :: "daemon \<Rightarrow> int" where
  "open_cmd_result st = (case command_pipe st of None \<Rightarrow> -1 | Some p \<Rightarrow> fst (sys_open p st))"

definition open_cmd_calls :: "daemon \<Rightarrow> call list" where
  "open_cmd_calls st =
     (case command_pipe st of None \<Rightarrow> [] | Some p \<Rightarrow> [SysOpen p (fst (sys_open p st))])"

text \<open>A cycle in which the command FIFO, on descriptor 3, is ready and at its end; a
  cycle in which only descriptor 4 is ready and its read is short; a buffer filled to
  its last byte.\<close>

definition eof_cycle :: cycle where
  "eof_cycle = \<lparr>sel = Select_ready {3}, dev_reads = (\<lambda>n. (0, key_press)), pipe_in = Read_gets [],
      stack_bytes = []\<rparr>"

definition short_read_on_4 :: cycle where
  "short_read_on_4 = \<lparr>sel = Select_ready {4}, dev_reads = (\<lambda>n. (8, key_press)),
      pipe_in = Read_fails, stack_bytes = []\<rparr>"

definition full_buffer :: daemon where
  "full_buffer =
     \<lparr>devs = [\<lparr>devname = ''/dev/input/event0'', fd = 4\<rparr>], command_pipe = Some ''/tmp/thd.fifo'',
      cmdfd = 3, cmdbuffer = replicate 1023 (CHR ''A''), dump_events = False,
      open_results = [Some 3], trace = []\<rparr>"

text \<open>
  The complete lines of a buffer content (the bytes before each newline) and the
  unterminated tail behind the last newline, read off character by character.
\<close>

fun lines_from :: "string \<Rightarrow> string \<Rightarrow> string list \<times> string" where
  "lines_from cur [] = ([], cur)"
| "lines_from cur (c # cs) =
     (if c = NL then (cur # fst (lines_from [] cs), snd (lines_from [] cs))
      else lines_from (cur @ [c]) cs)"

definition complete_lines :: "string \<Rightarrow> string list" where
  "complete_lines s = fst (lines_from [] s)"

definition unterminated_tail :: "string \<Rightarrow> string" where
  "unterminated_tail s = snd (lines_from [] s)"

text \<open>A daemon with its command FIFO open on descriptor 3, an empty buffer and no device.\<close>

definition fifo_open :: daemon where
  "fifo_open =
     \<lparr>devs = [], command_pipe = Some ''/tmp/thd.fifo'', cmdfd = 3, cmdbuffer = [],
      dump_events = False, open_results = [Some 4, Some 5], trace = []\<rparr>"

section \<open>Basic facts\<close>

lemma emit_fields [simp]:
  "devs (emit cs st) = devs st"
  "command_pipe (emit cs st) = command_pipe st"
  "cmdfd (emit cs st) = cmdfd st"
  "cmdbuffer (emit cs st) = cmdbuffer st"
  "dump_events (emit cs st) = dump_events st"
  "open_results (emit cs st) = open_results st"
  "trace (emit cs st) = trace st @ cs"
  by (simp_all add: emit_def)

lemma emit_emit [simp]: "emit cs (emit bs st) = emit (bs @ cs) st"
  by (simp add: emit_def)

lemma emit_Nil [simp]: "emit [] st = st"
  by (simp add: emit_def)

section \<open>Command parsing\<close>

lemma words_from_run:
  "words_from cur s =
     (if cur @ takeWhile (\<lambda>c. \<not> delim c) s = [] then [] else [cur @ takeWhile (\<lambda>c. \<not> delim c) s])
     @ words_from [] (drop 1 (dropWhile (\<lambda>c. \<not> delim c) s))"
  by (induction s arbitrary: cur) auto

lemma words_from_skip: "words_from [] s = words_from [] (dropWhile delim s)"
  by (induction s) auto

text \<open>The tokens that successive calls of \<open>strtok\<close> return are the whitespace-delimited
  tokens of the line.\<close>

lemma ws_tokens_strtok:
  "ws_tokens s = (case strtok_c s of None \<Rightarrow> [] | Some (t, rest) \<Rightarrow> t # ws_tokens rest)"
proof (cases "dropWhile delim s")
  case Nil
  have "words_from [] s = []"
    using words_from_skip [of s] unfolding Nil by simp
  then show ?thesis
    using Nil by (simp add: ws_tokens_def strtok_c_def)
next
  case (Cons c cs)
  then have nd: "\<not> delim c"
    by (metis hd_dropWhile list.distinct(1) list.sel(1))
  have "words_from [] s = words_from [] (c # cs)"
    using words_from_skip [of s] Cons by simp
  also have "\<dots> = (c # takeWhile (\<lambda>c. \<not> delim c) cs)
      # words_from [] (drop 1 (dropWhile (\<lambda>c. \<not> delim c) cs))"
    using words_from_run [of "[]" "c # cs"] nd by simp
  finally show ?thesis
    using Cons nd by (simp add: ws_tokens_def strtok_c_def)
qed

text \<open>
  Claim C8. A command line whose first whitespace-delimited token is neither \<open>ADD\<close> nor
  \<open>REMOVE\<close>, or which has no argument token, leaves the whole state as it is: the
  registry is unchanged and the trace gains no call, so no device is added or removed.
\<close>

theorem unknown_command_ignored:
  assumes "take 1 (ws_tokens line) \<noteq> [''ADD''] \<and> take 1 (ws_tokens line) \<noteq> [''REMOVE'']
           \<or> length (ws_tokens line) < 2"
  shows "process_commandline line st = st"
proof (cases "strtok_c line")
  case None
  then show ?thesis by (simp add: process_commandline_def)
next
  case (Some a)
  obtain t rest where a: "a = (t, rest)" by (cases a)
  have tk: "ws_tokens line = t # ws_tokens rest"
    using ws_tokens_strtok [of line] Some a by simp
  show ?thesis
  proof (cases "strtok_c rest")
    case None
    then show ?thesis using Some a by (simp add: process_commandline_def)
  next
    case (Some b)
    obtain u rest2 where b: "b = (u, rest2)" by (cases b)
    have "ws_tokens rest = u # ws_tokens rest2"
      using ws_tokens_strtok [of rest] Some b by simp
    with tk assms have "t \<noteq> ''ADD'' \<and> t \<noteq> ''REMOVE''" by simp
    then show ?thesis
      using \<open>strtok_c line = Some a\<close> a by (simp add: process_commandline_def Let_def)
  qed
qed

text \<open>The line \<open>FOO bar\<close> has the tokens \<open>FOO\<close> and \<open>bar\<close> and changes nothing.\<close>

theorem unknown_command_ignored_witness:
  "ws_tokens ''FOO bar'' = [''FOO'', ''bar'']
   \<and> process_commandline ''FOO bar'' one_device = one_device"
  using unknown_command_ignored [of "''FOO bar''" one_device]
  by (simp add: ws_tokens_def delim_def)

section \<open>Forwarding of transition records\<close>

lemma read_event_complete:
  "read_event dev (sizeof_input_event, ev) st =
     (0, emit (SysRead (fd dev) sizeof_input_event #
               (if ev_type ev = EV_KEY \<or> ev_type ev = EV_SW then
                  Change_keystate ev #
                  (if dump_events st then [Print_event (devname dev) ev, Print_keystate] else []) @
                  [Run_triggers (ev_type ev) (ev_code ev) (ev_value ev)]
                else [])) st)"
  by (simp add: read_event_def Let_def change_keystate_def print_event_def print_keystate_def
      run_triggers_def)

lemma read_event_short:
  "n \<noteq> sizeof_input_event \<Longrightarrow>
   read_event dev (n, ev) st =
     (1, emit [SysRead (fd dev) sizeof_input_event, Stderr (Error_reading_device (devname dev))] st)"
  by (simp add: read_event_def Let_def)

lemma feeds_append [simp]: "feeds (xs @ ys) = feeds xs @ feeds ys"
  by (simp add: feeds_def)

lemma feeds_read_event:
  "feeds (trace (snd (read_event dev (sizeof_input_event, ev) st))) =
   feeds (trace st) @
   (if monitored ev then [Change_keystate ev, Run_triggers (ev_type ev) (ev_code ev) (ev_value ev)]
    else [])"
  by (simp add: read_event_complete monitored_def feeds_def)

lemma feeds_fold:
  "feeds (trace (fold (\<lambda>(dev, ev) s. snd (read_event dev (sizeof_input_event, ev) s)) recs st)) =
   feeds (trace st) @
   concat (map (\<lambda>(dev, ev). if monitored ev
                 then [Change_keystate ev, Run_triggers (ev_type ev) (ev_code ev) (ev_value ev)]
                 else []) recs)"
proof (induction recs arbitrary: st)
  case Nil
  then show ?case by simp
next
  case (Cons r recs)
  obtain dev ev where r: "r = (dev, ev)" by (cases r)
  show ?case
    unfolding r fold_simps prod.case Cons.IH feeds_read_event by simp
qed

text \<open>
  Claim C7. When the read on a device delivers a complete record (\<open>sizeof_input_event\<close>
  bytes), \<open>read_event\<close> returns 0 and the calls it makes are: for a record of class
  \<open>EV_KEY\<close> or \<open>EV_SW\<close>, first \<open>change_keystate\<close>, then in dump mode the two printing
  calls, then \<open>run_triggers\<close>; for a record of any other class, none. Over a sequence of
  complete records the feeding calls are those of the monitored records, in the order in
  which the records were read.
\<close>

theorem complete_record_forwarding:
  "read_event dev (sizeof_input_event, ev) st =
     (0, emit (SysRead (fd dev) sizeof_input_event #
               (if monitored ev then
                  Change_keystate ev #
                  (if dump_events st then [Print_event (devname dev) ev, Print_keystate] else []) @
                  [Run_triggers (ev_type ev) (ev_code ev) (ev_value ev)]
                else [])) st)
   \<and> feeds (trace (fold (\<lambda>(dev, ev) s. snd (read_event dev (sizeof_input_event, ev) s)) recs st)) =
     feeds (trace st) @
     concat (map (\<lambda>(dev, ev). if monitored ev
                   then [Change_keystate ev, Run_triggers (ev_type ev) (ev_code ev) (ev_value ev)]
                   else []) recs)"
  using read_event_complete [of dev ev st] feeds_fold [of recs st]
  by (simp add: monitored_def)

section \<open>The registry under ADD and REMOVE\<close>

lemma sys_open_fields [simp]:
  "devs (snd (sys_open p st)) = devs st"
  "command_pipe (snd (sys_open p st)) = command_pipe st"
  "cmdfd (snd (sys_open p st)) = cmdfd st"
  "cmdbuffer (snd (sys_open p st)) = cmdbuffer st"
  "dump_events (snd (sys_open p st)) = dump_events st"
  "open_results (snd (sys_open p st)) = drop 1 (open_results st)"
  "trace (snd (sys_open p st)) = trace st @ [SysOpen p (fst (sys_open p st))]"
  by (simp_all add: sys_open_def Let_def)

lemma sys_open_result:
  "fst (sys_open p st) = (case open_results st of Some n # _ \<Rightarrow> int n | _ \<Rightarrow> -1)"
  by (simp add: sys_open_def Let_def split: list.splits option.splits)

lemma sys_open_range: "fst (sys_open p st) = -1 \<or> 0 \<le> fst (sys_open p st)"
  by (simp add: sys_open_result split: list.splits option.splits)

lemma add_device_fields [simp]:
  "command_pipe (add_device p st) = command_pipe st"
  "cmdfd (add_device p st) = cmdfd st"
  "cmdbuffer (add_device p st) = cmdbuffer st"
  "dump_events (add_device p st) = dump_events st"
  by (simp_all add: add_device_def split_beta)

lemma add_device_devs:
  "devs (add_device p st) =
     devs st @ (if fst (sys_open p st) < 0 then [] else [\<lparr>devname = p, fd = fst (sys_open p st)\<rparr>])"
  by (simp add: add_device_def split_beta)

lemma add_device_trace:
  "trace (add_device p st) =
     trace st @ SysOpen p (fst (sys_open p st)) #
       (if fst (sys_open p st) < 0 then [Stderr (Error_opening p)] else [])"
  by (simp add: add_device_def split_beta)

lemma find_None_unlink: "find (\<lambda>d. devname d = p) ds = None \<Longrightarrow> unlink p ds = ds"
  by (induction ds) (auto split: if_splits)

lemma remove_device_fields [simp]:
  "command_pipe (remove_device p st) = command_pipe st"
  "cmdfd (remove_device p st) = cmdfd st"
  "cmdbuffer (remove_device p st) = cmdbuffer st"
  "dump_events (remove_device p st) = dump_events st"
  "open_results (remove_device p st) = open_results st"
  "devs (remove_device p st) = unlink p (devs st)"
  by (simp_all add: remove_device_def find_None_unlink split: option.splits)

lemma remove_device_trace:
  "trace (remove_device p st) =
     trace st @ (case find (\<lambda>d. devname d = p) (devs st) of None \<Rightarrow> [] | Some d \<Rightarrow> [SysClose (fd d)])"
  by (simp add: remove_device_def split: option.splits)

lemma unlink_filter:
  "distinct (map devname ds) \<Longrightarrow> unlink p ds = filter (\<lambda>d. devname d \<noteq> p) ds"
proof (induction ds)
  case Nil
  then show ?case by simp
next
  case (Cons d ds)
  show ?case
  proof (cases "devname d = p")
    case True
    from Cons.prems have "devname d \<notin> set (map devname ds)" by simp
    with True have "\<forall>x\<in>set ds. devname x \<noteq> p" by (auto simp: image_iff)
    then have "filter (\<lambda>d. devname d \<noteq> p) ds = ds" by (simp add: filter_id_conv)
    with True show ?thesis by simp
  next
    case False
    with Cons show ?thesis by simp
  qed
qed

lemma process_commandline_fields [simp]:
  "command_pipe (process_commandline line st) = command_pipe st"
  "cmdfd (process_commandline line st) = cmdfd st"
  "cmdbuffer (process_commandline line st) = cmdbuffer st"
  "dump_events (process_commandline line st) = dump_events st"
  by (simp_all add: process_commandline_def Let_def split: option.splits prod.splits)

lemma add_command:
  assumes "ws_tokens line = ''ADD'' # p # others"
  shows "process_commandline line st =
         add_device p (remove_device p (emit [Stderr (Adding_device p)] st))"
proof -
  from assms obtain r where a: "strtok_c line = Some (''ADD'', r)" and b: "ws_tokens r = p # others"
    using ws_tokens_strtok [of line] by (auto split: option.splits)
  from b obtain r2 where "strtok_c r = Some (p, r2)"
    using ws_tokens_strtok [of r] by (auto split: option.splits)
  with a show ?thesis
    by (simp add: process_commandline_def)
qed

lemma process_commandline_distinct:
  assumes "distinct (map devname (devs st))"
  shows "distinct (map devname (devs (process_commandline line st)))"
proof -
  have rm: "\<And>p s. devs s = devs st \<Longrightarrow> distinct (map devname (devs (remove_device p s)))
      \<and> p \<notin> devname ` set (devs (remove_device p s))"
    using assms by (auto simp: unlink_filter distinct_map_filter)
  have ad: "\<And>p s. devs s = devs st \<Longrightarrow>
      distinct (map devname (devs (add_device p (remove_device p s))))"
    using rm by (auto simp: add_device_devs)
  show ?thesis
    using rm ad assms
    by (simp add: process_commandline_def Let_def split: option.splits prod.splits)
qed

lemma commands_distinct:
  "distinct (map devname (devs st)) \<Longrightarrow>
   distinct (map devname (devs (fold process_commandline lines st)))"
  by (induction lines arbitrary: st) (simp_all add: process_commandline_distinct)



lemma sys_open_fst_cong:
  "open_results s = open_results st \<Longrightarrow> fst (sys_open p s) = fst (sys_open p st)"
  by (simp add: sys_open_result)

lemma add_devices_distinct:
  "distinct (map devname (devs st) @ paths) \<Longrightarrow>
   distinct (map devname (devs (fold add_device paths st)))"
proof (induction paths arbitrary: st)
  case Nil
  then show ?case by simp
next
  case (Cons p paths)
  from Cons.prems have "distinct (map devname (devs (add_device p st)) @ paths)"
    by (auto simp: add_device_devs)
  then show ?case
    using Cons.IH [of "add_device p st"] by simp
qed

text \<open>
  Claim C5, as amended. From a registry in which no two entries share a path, every
  sequence of command lines leads to such a registry again. A line \<open>ADD p\<close> is processed
  as remove followed by add: the entry of \<open>p\<close>, if there is one, is closed and unlinked,
  then \<open>p\<close> is opened; the registry afterwards holds exactly one entry for \<open>p\<close> when the
  open succeeds and none when it fails, never two. A registry built at startup from
  pairwise distinct paths is of this kind.
\<close>

theorem replace_keeps_paths_distinct:
  assumes "distinct (map devname (devs st))"
  shows "distinct (map devname (devs (fold process_commandline lines st)))
       \<and> (ws_tokens line = ''ADD'' # p # others \<longrightarrow>
            devs (process_commandline line st) =
              filter (\<lambda>d. devname d \<noteq> p) (devs st) @
              (if fst (sys_open p st) < 0 then [] else [\<lparr>devname = p, fd = fst (sys_open p st)\<rparr>])
          \<and> length (filter (\<lambda>d. devname d = p) (devs (process_commandline line st))) =
              (if fst (sys_open p st) < 0 then 0 else 1)
          \<and> trace (process_commandline line st) =
              trace st @ Stderr (Adding_device p) #
              (case find (\<lambda>d. devname d = p) (devs st) of None \<Rightarrow> [] | Some d \<Rightarrow> [SysClose (fd d)]) @
              SysOpen p (fst (sys_open p st)) #
              (if fst (sys_open p st) < 0 then [Stderr (Error_opening p)] else []))
       \<and> (devs st = [] \<and> distinct paths \<longrightarrow>
            distinct (map devname
              (devs (fold process_commandline lines (fold add_device paths st)))))"
proof (intro conjI impI)
  show "distinct (map devname (devs (fold process_commandline lines st)))"
    using assms by (rule commands_distinct)
next
  assume a: "ws_tokens line = ''ADD'' # p # others"
  let ?s = "remove_device p (emit [Stderr (Adding_device p)] st)"
  have r: "fst (sys_open p ?s) = fst (sys_open p st)"
    by (rule sys_open_fst_cong) simp
  have d: "devs ?s = filter (\<lambda>d. devname d \<noteq> p) (devs st)"
    using assms by (simp add: unlink_filter)
  show dv: "devs (process_commandline line st) =
      filter (\<lambda>d. devname d \<noteq> p) (devs st) @
      (if fst (sys_open p st) < 0 then [] else [\<lparr>devname = p, fd = fst (sys_open p st)\<rparr>])"
    unfolding add_command [OF a] add_device_devs r d by simp
  show "length (filter (\<lambda>d. devname d = p) (devs (process_commandline line st))) =
      (if fst (sys_open p st) < 0 then 0 else 1)"
    unfolding dv by simp
  show "trace (process_commandline line st) =
      trace st @ Stderr (Adding_device p) #
      (case find (\<lambda>d. devname d = p) (devs st) of None \<Rightarrow> [] | Some d \<Rightarrow> [SysClose (fd d)]) @
      SysOpen p (fst (sys_open p st)) #
      (if fst (sys_open p st) < 0 then [Stderr (Error_opening p)] else [])"
    unfolding add_command [OF a] add_device_trace r by (simp add: remove_device_trace)
next
  assume "devs st = [] \<and> distinct paths"
  then have "distinct (map devname (devs (fold add_device paths st)))"
    using add_devices_distinct [of st paths] by simp
  then show "distinct (map devname
      (devs (fold process_commandline lines (fold add_device paths st))))"
    by (rule commands_distinct)
qed

lemma add_event0_tokens:
  "ws_tokens ''ADD /dev/input/event0'' = [''ADD'', ''/dev/input/event0'']"
  by (simp add: ws_tokens_def delim_def)

theorem replace_keeps_paths_distinct_witness:
  "devs (process_commandline ''ADD /dev/input/event0'' one_device) =
     [\<lparr>devname = ''/dev/input/event0'', fd = 5\<rparr>]
   \<and> trace (process_commandline ''ADD /dev/input/event0'' one_device) =
     [Stderr (Adding_device ''/dev/input/event0''), SysClose 4, SysOpen ''/dev/input/event0'' 5]"
proof -
  have h: "distinct (map devname (devs one_device))"
    by (simp add: one_device_def)
  have r: "fst (sys_open ''/dev/input/event0'' one_device) = 5"
    by (simp add: sys_open_result one_device_def)
  have d: "devs one_device = [\<lparr>devname = ''/dev/input/event0'', fd = 4\<rparr>]" "trace one_device = []"
    by (simp_all add: one_device_def)
  note t = replace_keeps_paths_distinct [OF h, of "[]" "''ADD /dev/input/event0''"
      "''/dev/input/event0''" "[]" "[]", THEN conjunct2, THEN conjunct1, rule_format,
      OF add_event0_tokens]
  show ?thesis
    using t [THEN conjunct1] t [THEN conjunct2, THEN conjunct2] by (simp add: r d)
qed

text \<open>
  Claim C5 as stated fails where the open of the re-added device fails: the old entry
  has been removed and no new one is made, so \<open>ADD p\<close> leaves no entry for \<open>p\<close>.
\<close>

theorem re_add_with_failing_open_counterexample:
  "map devname (devs vanished) = [''/dev/input/event0'']
   \<and> devs (process_commandline ''ADD /dev/input/event0'' vanished) = []"
  by (simp add: vanished_def process_commandline_def strtok_c_def delim_def Let_def
      remove_device_def add_device_def sys_open_def emit_def)

text \<open>
  \<open>start_readers\<close> adds the startup paths without removing first: a path given twice
  on the command line is registered twice.
\<close>

lemma startup_path_given_twice:
  "start_readers [''/dev/input/event0'', ''/dev/input/event0''] []
      (initial None False [Some 3, Some 4]) =
   Running
     \<lparr>devs = [\<lparr>devname = ''/dev/input/event0'', fd = 3\<rparr>, \<lparr>devname = ''/dev/input/event0'', fd = 4\<rparr>],
      command_pipe = None, cmdfd = -1, cmdbuffer = [], dump_events = False, open_results = [],
      trace = [SysOpen ''/dev/input/event0'' 3, SysOpen ''/dev/input/event0'' 4]\<rparr>"
  by (simp add: start_readers_def initial_def add_device_def sys_open_def count_devices_def)

section \<open>Dispatch over the devices\<close>

lemma reads_of_append [simp]: "reads_of (xs @ ys) = reads_of xs @ reads_of ys"
  by (induction xs rule: reads_of.induct) auto

lemma read_event_devs [simp]: "devs (snd (read_event d r st)) = devs st"
  by (cases r) (simp add: read_event_def Let_def change_keystate_def print_event_def
      print_keystate_def run_triggers_def)

lemma read_event_complete_fst:
  "fst r = sizeof_input_event \<Longrightarrow> fst (read_event d r st) = 0"
  by (cases r) (simp add: read_event_complete)

lemma read_event_complete_reads:
  "fst r = sizeof_input_event \<Longrightarrow>
   reads_of (trace (snd (read_event d r st))) = reads_of (trace st) @ [fd d]"
  by (cases r) (simp add: read_event_complete)

lemma process_devices_from_append:
  assumes "\<forall>x\<in>set pre. fd x \<in> rfds \<longrightarrow> fst (rd (fd x)) = sizeof_input_event"
  shows "process_devices_from rfds rd (pre @ rest) st =
         process_devices_from rfds rd rest (process_devices_from rfds rd pre st)"
  using assms
proof (induction pre arbitrary: st)
  case Nil
  then show ?case by simp
next
  case (Cons x pre)
  show ?case
  proof (cases "fd x \<in> rfds")
    case True
    with Cons.prems have "fst (read_event x (rd (fd x)) st) = 0"
      by (simp add: read_event_complete_fst)
    with True Cons show ?thesis
      by (simp add: split_beta)
  next
    case False
    with Cons show ?thesis by simp
  qed
qed

lemma process_devices_from_ok:
  assumes "\<forall>x\<in>set pre. fd x \<in> rfds \<longrightarrow> fst (rd (fd x)) = sizeof_input_event"
  shows "devs (process_devices_from rfds rd pre st) = devs st
       \<and> reads_of (trace (process_devices_from rfds rd pre st)) =
           reads_of (trace st) @ filter (\<lambda>n. n \<in> rfds) (map fd pre)"
  using assms
proof (induction pre arbitrary: st)
  case Nil
  then show ?case by simp
next
  case (Cons x pre)
  show ?case
  proof (cases "fd x \<in> rfds")
    case True
    with Cons.prems have c: "fst (rd (fd x)) = sizeof_input_event" by simp
    then have "fst (read_event x (rd (fd x)) st) = 0"
      by (simp add: read_event_complete_fst)
    with True Cons show ?thesis
      by (simp add: split_beta read_event_complete_reads [OF c])
  next
    case False
    with Cons show ?thesis by simp
  qed
qed

lemma add_to_fdset_loop_set: "snd (add_to_fdset_loop m fds ds) = fds \<union> fd ` set ds"
  by (induction ds arbitrary: m fds) auto

lemma add_to_fdset_set: "snd (add_to_fdset fds ds) = fds \<union> fd ` set ds"
  by (simp add: add_to_fdset_def add_to_fdset_loop_set)

lemma unlink_other_paths:
  "filter (\<lambda>x. devname x \<noteq> p) (unlink p ds) = filter (\<lambda>x. devname x \<noteq> p) ds"
  by (induction ds) auto

lemma unlink_length: "p \<in> devname ` set ds \<Longrightarrow> Suc (length (unlink p ds)) = length ds"
  by (induction ds) auto

lemma unlink_first:
  "devname d \<notin> devname ` set pre \<Longrightarrow> unlink (devname d) (pre @ d # post) = pre @ post"
  by (induction pre) auto

text \<open>
  A pass in which some device fails. Let \<open>d\<close> be the first ready device whose read is
  short or invalid, the ready devices before it all delivering complete records. Then the
  pass consists of the reads on the ready devices before \<open>d\<close>, the failing read on \<open>d\<close>
  and \<open>remove_device\<close> for the path of \<open>d\<close>, and nothing else: no read is made on any
  device behind \<open>d\<close>, however ready it is. Exactly one entry leaves the registry; it has
  the path of \<open>d\<close>, and every entry with another path stays, in its place. When no entry
  before \<open>d\<close> has the same path, the entry removed is \<open>d\<close> itself.
\<close>

lemma device_fault_isolation:
  assumes "devs st = pre @ d # post"
    and "\<forall>x\<in>set pre. fd x \<in> rfds \<longrightarrow> fst (rd (fd x)) = sizeof_input_event"
    and "fd d \<in> rfds"
    and "fst (rd (fd d)) \<noteq> sizeof_input_event"
  shows "process_devices rfds rd st =
           remove_device (devname d)
             (emit [SysRead (fd d) sizeof_input_event, Stderr (Error_reading_device (devname d))]
                (process_devices_from rfds rd pre st))
         \<and> devs (process_devices rfds rd st) = unlink (devname d) (devs st)
         \<and> Suc (length (devs (process_devices rfds rd st))) = length (devs st)
         \<and> filter (\<lambda>x. devname x \<noteq> devname d) (devs (process_devices rfds rd st)) =
             filter (\<lambda>x. devname x \<noteq> devname d) (devs st)
         \<and> (devname d \<notin> devname ` set pre \<longrightarrow> devs (process_devices rfds rd st) = pre @ post)
         \<and> reads_of (trace (process_devices rfds rd st)) =
             reads_of (trace st) @ filter (\<lambda>n. n \<in> rfds) (map fd pre) @ [fd d]
         \<and> snd (add_to_fdset {} (devs (process_devices rfds rd st))) =
             fd ` set (devs (process_devices rfds rd st))"
proof -
  let ?s1 = "process_devices_from rfds rd pre st"
  let ?s2 = "emit [SysRead (fd d) sizeof_input_event, Stderr (Error_reading_device (devname d))] ?s1"
  have s1: "devs ?s1 = devs st"
    and r1: "reads_of (trace ?s1) = reads_of (trace st) @ filter (\<lambda>n. n \<in> rfds) (map fd pre)"
    using process_devices_from_ok [OF assms(2), of st] by simp_all
  obtain n ev where rd: "rd (fd d) = (n, ev)" by (cases "rd (fd d)")
  with assms(4) have n: "n \<noteq> sizeof_input_event" by simp
  have "process_devices rfds rd st = process_devices_from rfds rd (d # post) ?s1"
    unfolding process_devices_def assms(1) by (rule process_devices_from_append [OF assms(2)])
  also have "\<dots> = remove_device (devname d) ?s2"
    using assms(3) rd read_event_short [OF n] by simp
  finally have eq: "process_devices rfds rd st = remove_device (devname d) ?s2" .
  have dv: "devs (process_devices rfds rd st) = unlink (devname d) (devs st)"
    unfolding eq by (simp add: s1)
  have mem: "devname d \<in> devname ` set (devs st)"
    unfolding assms(1) by simp
  have tr: "reads_of (trace (process_devices rfds rd st)) =
      reads_of (trace st) @ filter (\<lambda>n. n \<in> rfds) (map fd pre) @ [fd d]"
    unfolding eq using r1 by (simp add: remove_device_trace split: option.splits)
  show ?thesis
    using eq dv tr unlink_length [OF mem] unlink_other_paths [of "devname d" "devs st"]
      unlink_first [of d pre post]
    by (simp add: assms(1) add_to_fdset_set)
qed

text \<open>Three devices, all ready; the read on the second is short. The first is read, the
  second is read and removed, the third is not read.\<close>

lemma device_fault_isolation_example:
  "devs (process_devices {4, 5, 6} short_on_5 three_devices) =
     [\<lparr>devname = ''/dev/input/event0'', fd = 4\<rparr>, \<lparr>devname = ''/dev/input/event2'', fd = 6\<rparr>]
   \<and> reads_of (trace (process_devices {4, 5, 6} short_on_5 three_devices)) = [4, 5]"
proof -
  have h1: "devs three_devices =
      [\<lparr>devname = ''/dev/input/event0'', fd = 4\<rparr>] @ \<lparr>devname = ''/dev/input/event1'', fd = 5\<rparr>
        # [\<lparr>devname = ''/dev/input/event2'', fd = 6\<rparr>]"
    by (simp add: three_devices_def)
  have h2: "\<forall>x\<in>set [\<lparr>devname = ''/dev/input/event0'', fd = 4\<rparr>].
      fd x \<in> {4, 5, 6} \<longrightarrow> fst (short_on_5 (fd x)) = sizeof_input_event"
    by (simp add: short_on_5_def)
  have h3: "fd \<lparr>devname = ''/dev/input/event1'', fd = 5\<rparr> \<in> {4, 5, 6}"
    by simp
  have h4: "fst (short_on_5 (fd \<lparr>devname = ''/dev/input/event1'', fd = 5\<rparr>)) \<noteq> sizeof_input_event"
    by (simp add: short_on_5_def sizeof_input_event_def)
  have h5: "trace three_devices = []"
    by (simp add: three_devices_def)
  note r = device_fault_isolation [OF h1 h2 h3 h4, THEN conjunct2]
  show ?thesis
    using r [THEN conjunct1]
      r [THEN conjunct2, THEN conjunct2, THEN conjunct2, THEN conjunct2, THEN conjunct1]
    by (simp add: h1 h5)
qed

text \<open>
  Claim C4: in a pass in which some device delivers a short or invalid read, that device
  and only that device is removed, and the pass ends. The pass does end at the first
  failing device, and one entry is removed by its path (\<open>device_fault_isolation\<close>). But
  \<open>start_readers\<close> registers a path that is given twice on the command line twice, and
  \<open>remove_device\<close> then takes the first entry of that path, not the failing one. Here
  both entries are \<open>/dev/input/event0\<close>, on the descriptors 3 and 4, and the read on 4 is
  short: descriptor 3 is closed and its entry unlinked, the failing entry on 4 stays
  registered.
\<close>

theorem failing_twin_stays_registered:
  "start_readers [''/dev/input/event0'', ''/dev/input/event0''] [short_read_on_4]
      (initial None False [Some 3, Some 4]) =
   Running
     \<lparr>devs = [\<lparr>devname = ''/dev/input/event0'', fd = 4\<rparr>],
      command_pipe = None, cmdfd = -1, cmdbuffer = [], dump_events = False, open_results = [],
      trace = [SysOpen ''/dev/input/event0'' 3, SysOpen ''/dev/input/event0'' 4,
               SysRead 4 sizeof_input_event, Stderr (Error_reading_device ''/dev/input/event0''),
               SysClose 3]\<rparr>"
  by (simp add: start_readers_def initial_def add_device_def sys_open_def count_devices_def
      short_read_on_4_def loop_body_def add_to_fdset_def process_devices_def read_event_def
      sizeof_input_event_def remove_device_def emit_def Let_def)

section \<open>The command channel at end of file\<close>

lemma emit_cmdbuffer_update: "emit cs (st\<lparr>cmdbuffer := x\<rparr>) = (emit cs st)\<lparr>cmdbuffer := x\<rparr>"
  by (simp add: emit_def)

lemma open_cmd_result_range: "open_cmd_result st = -1 \<or> 0 \<le> open_cmd_result st"
  using sys_open_range by (simp add: open_cmd_result_def split: option.splits)

lemma open_cmd_result_emit [simp]:
  "open_cmd_result (emit cs st) = open_cmd_result st"
  "open_cmd_result (st\<lparr>cmdbuffer := x\<rparr>) = open_cmd_result st"
  by (simp_all add: open_cmd_result_def sys_open_result split: option.splits)

lemma open_cmd_calls_emit [simp]:
  "open_cmd_calls (emit cs st) = open_cmd_calls st"
  "open_cmd_calls (st\<lparr>cmdbuffer := x\<rparr>) = open_cmd_calls st"
  by (simp_all add: open_cmd_calls_def sys_open_result split: option.splits)

lemma open_cmd_fails:
  "open_cmd_result st < 0 \<Longrightarrow>
   open_cmd st = Inl (if command_pipe st = None then Null_path else Free_of_optarg)"
  by (auto simp: open_cmd_def open_cmd_result_def Let_def split: option.splits prod.splits)

lemma open_cmd_succeeds:
  "0 \<le> open_cmd_result st \<Longrightarrow>
   \<exists>st'. open_cmd st = Inr (0, st') \<and> devs st' = devs st \<and> cmdbuffer st' = cmdbuffer st
     \<and> dump_events st' = dump_events st \<and> command_pipe st' = command_pipe st
     \<and> command_pipe st \<noteq> None
     \<and> cmdfd st' = open_cmd_result st \<and> trace st' = trace st @ open_cmd_calls st"
  by (cases "command_pipe st")
    (auto simp: open_cmd_def open_cmd_result_def open_cmd_calls_def Let_def sys_open_def
      split: prod.splits)

lemma eof_drain:
  assumes "int (length (cmdbuffer st)) < MAXCMD"
    and "fst (sys_read inp (nat (MAXCMD - int (length (cmdbuffer st)) - 1))) = 0"
  shows "read_command_pipe inp stack st =
         (case open_cmd
            ((emit [SysRead (cmdfd st) (MAXCMD - int (length (cmdbuffer st)) - 1), SysClose (cmdfd st)] st)
               \<lparr>cmdbuffer := []\<rparr>) of
            Inl f \<Rightarrow> Inl f
          | Inr (r, st2) \<Rightarrow> Inr st2)"
  using assms
  by (simp add: read_command_pipe_def Let_def split_beta emit_cmdbuffer_update)

text \<open>
  Claim C9. When the buffer already holds \<open>MAXCMD - 1\<close> bytes, the drain asks read(2) for
  zero bytes, which returns 0 whatever the FIFO holds, and takes the branch of the closed
  peer: the buffered line is dropped, the descriptor is closed and \<open>open_cmd\<close> is called.
  When the open succeeds, the calls made are the read, the close and the open; no message
  about the overflow is among them. When the drain does not return, it is because that
  open failed.
\<close>

theorem overflow_taken_as_eof:
  assumes "int (length (cmdbuffer st)) = MAXCMD - 1"
  shows "read_command_pipe inp stack st =
           (case open_cmd ((emit [SysRead (cmdfd st) 0, SysClose (cmdfd st)] st)\<lparr>cmdbuffer := []\<rparr>) of
              Inl f \<Rightarrow> Inl f
            | Inr (r, st2) \<Rightarrow> Inr st2)
       \<and> (case read_command_pipe inp stack st of
             Inl f \<Rightarrow> open_cmd_result st < 0 \<and> (f = Free_of_optarg \<or> f = Null_path)
           | Inr st' \<Rightarrow>
               cmdbuffer st' = [] \<and> devs st' = devs st
               \<and> cmdfd st' = open_cmd_result st \<and> 0 \<le> open_cmd_result st
               \<and> trace st' = trace st @ [SysRead (cmdfd st) 0, SysClose (cmdfd st)] @ open_cmd_calls st)"
proof -
  let ?s = "(emit [SysRead (cmdfd st) 0, SysClose (cmdfd st)] st)\<lparr>cmdbuffer := []\<rparr>"
  have "sys_read inp (nat (MAXCMD - int (length (cmdbuffer st)) - 1)) = (0, [])"
    using assms by (simp add: sys_read_def)
  then have e: "read_command_pipe inp stack st =
      (case open_cmd ?s of Inl f \<Rightarrow> Inl f | Inr (r, st2) \<Rightarrow> Inr st2)"
    using assms eof_drain [of st inp stack] by simp
  show ?thesis
  proof (cases "open_cmd_result st < 0")
    case True
    then have "open_cmd_result ?s < 0" by simp
    from open_cmd_fails [OF this] True e show ?thesis by simp
  next
    case False
    then have "0 \<le> open_cmd_result ?s" by simp
    from open_cmd_succeeds [OF this] False e show ?thesis by auto
  qed
qed

theorem overflow_taken_as_eof_witness:
  "read_command_pipe (Read_gets (''DD /dev/input/event1'' @ [NL])) [] full_buffer =
     Inr \<lparr>devs = [\<lparr>devname = ''/dev/input/event0'', fd = 4\<rparr>], command_pipe = Some ''/tmp/thd.fifo'',
          cmdfd = 3, cmdbuffer = [], dump_events = False, open_results = [],
          trace = [SysRead 3 0, SysClose 3, SysOpen ''/tmp/thd.fifo'' 3]\<rparr>"
proof -
  have h: "int (length (cmdbuffer full_buffer)) = MAXCMD - 1"
    by (simp add: full_buffer_def MAXCMD_def)
  show ?thesis
    unfolding overflow_taken_as_eof [OF h, THEN conjunct1]
    by (simp add: full_buffer_def open_cmd_def sys_open_def emit_def)
qed

lemma count_devices_pos [simp]: "(0 < count_devices ds) = (ds \<noteq> [])"
  by (simp add: count_devices_def)

lemma eof_drain_failed_reopen:
  assumes "int (length (cmdbuffer st)) < MAXCMD"
    and "fst (sys_read inp (nat (MAXCMD - int (length (cmdbuffer st)) - 1))) = 0"
    and "open_cmd_result st < 0"
  shows "read_command_pipe inp stack st =
         Inl (if command_pipe st = None then Null_path else Free_of_optarg)"
proof -
  let ?s = "(emit [SysRead (cmdfd st) (MAXCMD - int (length (cmdbuffer st)) - 1), SysClose (cmdfd st)] st)
      \<lparr>cmdbuffer := []\<rparr>"
  from assms(3) have "open_cmd_result ?s < 0" by simp
  from open_cmd_fails [OF this] show ?thesis
    unfolding eof_drain [OF assms(1,2)] by simp
qed

lemma eof_drain_reopened:
  assumes "int (length (cmdbuffer st)) < MAXCMD"
    and "fst (sys_read inp (nat (MAXCMD - int (length (cmdbuffer st)) - 1))) = 0"
    and "0 \<le> open_cmd_result st"
  shows "\<exists>st'. read_command_pipe inp stack st = Inr st'
     \<and> cmdbuffer st' = [] \<and> devs st' = devs st \<and> command_pipe st' = command_pipe st
     \<and> cmdfd st' = open_cmd_result st
     \<and> trace st' =
         trace st @
         [SysRead (cmdfd st) (MAXCMD - int (length (cmdbuffer st)) - 1), SysClose (cmdfd st)] @
         open_cmd_calls st"
proof -
  let ?s = "(emit [SysRead (cmdfd st) (MAXCMD - int (length (cmdbuffer st)) - 1), SysClose (cmdfd st)] st)
      \<lparr>cmdbuffer := []\<rparr>"
  from assms(3) have "0 \<le> open_cmd_result ?s" by simp
  from open_cmd_succeeds [OF this] show ?thesis
    unfolding eof_drain [OF assms(1,2)] by auto
qed

text \<open>
  Claim C10: when the reopen after an end of file fails, the channel is disabled for
  good, \<open>command_pipe\<close> cleared and \<open>cmdfd\<close> at \<open>-1\<close>, and the daemon runs on until the
  registry is empty. The code gets as far as the failed open. Then it calls
  \<open>free(command_pipe)\<close> on a pointer that is \<open>optarg\<close>: the behaviour is undefined, here
  with a device still registered, and the state that the claim describes is not reached.
\<close>

theorem failed_reopen_frees_optarg:
  "read_command_pipe (Read_gets []) [] vanished = Inl Free_of_optarg
   \<and> process_events [eof_cycle] vanished = Undefined Free_of_optarg"
  by (simp add: vanished_def eof_cycle_def read_command_pipe_def sys_read_def MAXCMD_def
      open_cmd_def sys_open_def emit_def loop_body_def add_to_fdset_def process_devices_def
      Let_def)

text \<open>
  Claim C6: at the end of file the buffered partial line is discarded, the descriptor is
  closed and reopened, the daemon goes on and the discarded text is never processed
  again. The buffer is cleared (\<open>eof_drain_reopened\<close>), but the array \<open>buf\<close> keeps the
  bytes it was given, and the next drain that starts from an empty buffer uses the same
  array. Four drains: the partial line \<open>REMOVE /dev/input/event0\<close> is read and buffered;
  the end of file clears the buffer and the FIFO is reopened on descriptor 5; a read that
  fails leaves the array as it was, and \<open>strcat\<close> puts the discarded line back into the
  buffer; a newline arrives and \<open>REMOVE /dev/input/event0\<close> is executed. When the reopen
  fails, the drain does not return at all (\<open>eof_drain_failed_reopen\<close>).
\<close>

theorem discarded_text_is_executed:
  "read_command_pipe (Read_gets ''REMOVE /dev/input/event0'') (replicate 32 NUL) one_device =
     Inr (one_device\<lparr>cmdbuffer := ''REMOVE /dev/input/event0'', trace := [SysRead 3 1023]\<rparr>)
   \<and> read_command_pipe (Read_gets []) []
       (one_device\<lparr>cmdbuffer := ''REMOVE /dev/input/event0'', trace := [SysRead 3 1023]\<rparr>) =
     Inr (one_device\<lparr>cmdfd := 5, open_results := [],
            trace := [SysRead 3 1023, SysRead 3 999, SysClose 3, SysOpen ''/tmp/thd.fifo'' 5]\<rparr>)
   \<and> read_command_pipe Read_fails (''REMOVE /dev/input/event0'' @ [NUL])
       (one_device\<lparr>cmdfd := 5, open_results := [],
          trace := [SysRead 3 1023, SysRead 3 999, SysClose 3, SysOpen ''/tmp/thd.fifo'' 5]\<rparr>) =
     Inr (one_device\<lparr>cmdfd := 5, cmdbuffer := ''REMOVE /dev/input/event0'', open_results := [],
            trace := [SysRead 3 1023, SysRead 3 999, SysClose 3, SysOpen ''/tmp/thd.fifo'' 5,
                      SysRead 5 1023]\<rparr>)
   \<and> read_command_pipe (Read_gets [NL]) (replicate 32 NUL)
       (one_device\<lparr>cmdfd := 5, cmdbuffer := ''REMOVE /dev/input/event0'', open_results := [],
          trace := [SysRead 3 1023, SysRead 3 999, SysClose 3, SysOpen ''/tmp/thd.fifo'' 5,
                    SysRead 5 1023]\<rparr>) =
     Inr (one_device\<lparr>devs := [], cmdfd := 5, open_results := [],
            trace := [SysRead 3 1023, SysRead 3 999, SysClose 3, SysOpen ''/tmp/thd.fifo'' 5,
                      SysRead 5 1023, SysRead 5 999,
                      Stderr (Removing_device ''/dev/input/event0''), SysClose 4]\<rparr>)"
  by (simp add: one_device_def read_command_pipe_def sys_read_def MAXCMD_def NUL_def NL_def
      scan_lines.simps process_commandline_def strtok_c_def delim_def remove_device_def
      open_cmd_def sys_open_def emit_def Let_def)

text \<open>A read of the single byte \<open>R\<close> in place of the failing read has the same effect.\<close>

lemma one_byte_brings_discarded_text_back:
  "read_command_pipe (Read_gets ''R'') (''REMOVE /dev/input/event0'' @ [NUL])
       (one_device\<lparr>cmdfd := 5, open_results := []\<rparr>) =
     Inr (one_device\<lparr>cmdfd := 5, cmdbuffer := ''REMOVE /dev/input/event0'', open_results := [],
            trace := [SysRead 5 1023]\<rparr>)"
  by (simp add: one_device_def read_command_pipe_def sys_read_def MAXCMD_def NUL_def NL_def
      scan_lines.simps emit_def Let_def)

section \<open>The event loop and the state of the channel\<close>

lemma read_event_fields [simp]:
  "command_pipe (snd (read_event d r st)) = command_pipe st"
  "cmdfd (snd (read_event d r st)) = cmdfd st"
  "cmdbuffer (snd (read_event d r st)) = cmdbuffer st"
  by (cases r; simp add: read_event_def Let_def change_keystate_def print_event_def
      print_keystate_def run_triggers_def)+

lemma process_devices_from_fields:
  "command_pipe (process_devices_from rfds rd ds st) = command_pipe st
   \<and> cmdfd (process_devices_from rfds rd ds st) = cmdfd st
   \<and> cmdbuffer (process_devices_from rfds rd ds st) = cmdbuffer st"
proof (induction ds arbitrary: st)
  case Nil
  then show ?case by simp
next
  case (Cons d ds)
  obtain r st1 where e: "read_event d (rd (fd d)) st = (r, st1)"
    by (cases "read_event d (rd (fd d)) st")
  then have "st1 = snd (read_event d (rd (fd d)) st)" by simp
  then have st1: "command_pipe st1 = command_pipe st" "cmdfd st1 = cmdfd st"
    "cmdbuffer st1 = cmdbuffer st"
    by simp_all
  show ?case
    using Cons.IH [of st] Cons.IH [of st1] e st1 by simp
qed

lemma process_devices_fields [simp]:
  "command_pipe (process_devices rfds rd st) = command_pipe st"
  "cmdfd (process_devices rfds rd st) = cmdfd st"
  "cmdbuffer (process_devices rfds rd st) = cmdbuffer st"
  using process_devices_from_fields [of rfds rd "devs st" st]
  by (simp_all add: process_devices_def)

lemma scan_lines_fields:
  "scan_lines st = Inr st' \<Longrightarrow> command_pipe st' = command_pipe st \<and> cmdfd st' = cmdfd st"
proof (induction st rule: scan_lines.induct)
  case (1 st)
  let ?line = "takeWhile (\<lambda>c. c \<noteq> NL) (cmdbuffer st)"
  let ?tail = "drop 1 (dropWhile (\<lambda>c. c \<noteq> NL) (cmdbuffer st))"
  show ?case
  proof (cases "NL \<in> set (cmdbuffer st)")
    case True
    show ?thesis
    proof (cases "int (length ?line) < MAXCMD")
      case fits: True
      with True "1.prems" have no: "\<not> length ?line < length ?tail"
        and r: "scan_lines ((process_commandline ?line st)\<lparr>cmdbuffer := ?tail\<rparr>) = Inr st'"
        by (subst (asm) scan_lines.simps, simp add: Let_def split: if_splits)+
      from "1.IH"(1) [OF True refl refl refl fits no r] show ?thesis by simp
    next
      case False
      with True "1.prems" have
        r: "scan_lines ((process_commandline ?line st)\<lparr>cmdbuffer := []\<rparr>) = Inr st'"
        by (subst (asm) scan_lines.simps) (simp add: Let_def)
      from "1.IH"(2) [OF True refl refl refl False r] show ?thesis by simp
    qed
  next
    case False
    with "1.prems" show ?thesis
      by (subst (asm) scan_lines.simps) simp
  qed
qed

lemma read_command_pipe_cmdfd:
  assumes "read_command_pipe inp stack st = Inr st'" and "cmdfd st \<noteq> -1"
  shows "cmdfd st' \<noteq> -1"
proof -
  let ?n = "nat (MAXCMD - int (length (cmdbuffer st)) - 1)"
  from assms(1) have len: "int (length (cmdbuffer st)) < MAXCMD"
    by (auto simp: read_command_pipe_def Let_def split: if_splits)
  show ?thesis
  proof (cases "fst (sys_read inp ?n) = 0")
    case True
    show ?thesis
    proof (cases "open_cmd_result st < 0")
      case neg: True
      from eof_drain_failed_reopen [OF len True neg, of stack] assms(1) show ?thesis by simp
    next
      case False
      then have "0 \<le> open_cmd_result st" by simp
      from eof_drain_reopened [OF len True this, of stack] assms(1) this show ?thesis by auto
    qed
  next
    case False
    with assms(1) len obtain s where "scan_lines s = Inr st'" "cmdfd s = cmdfd st"
      by (auto simp: read_command_pipe_def Let_def split_beta split: if_splits)
    with assms(2) show ?thesis
      using scan_lines_fields [of s st'] by simp
  qed
qed

lemma loop_body_cmdfd:
  assumes "loop_body c st = Inr st'"
  shows "(cmdfd st = -1 \<longrightarrow> cmdfd st' = -1) \<and> (cmdfd st \<noteq> -1 \<longrightarrow> cmdfd st' \<noteq> -1)"
proof (cases "sel c")
  case Select_error
  with assms show ?thesis by (auto simp: loop_body_def)
next
  case Select_timeout
  with assms show ?thesis by (auto simp: loop_body_def)
next
  case (Select_ready ready)
  let ?st1 = "process_devices
      ((if cmdfd st \<noteq> -1 then insert (cmdfd st) (snd (add_to_fdset {} (devs st)))
        else snd (add_to_fdset {} (devs st))) \<inter> ready) (dev_reads c) st"
  show ?thesis
  proof (cases "cmdfd st \<noteq> -1 \<and> cmdfd st \<in> ready")
    case True
    then have "read_command_pipe (pipe_in c) (stack_bytes c) ?st1 = Inr st'"
      using assms Select_ready by (simp add: loop_body_def Let_def)
    from read_command_pipe_cmdfd [OF this] True show ?thesis by simp
  next
    case False
    then have "st' = ?st1"
      using assms Select_ready by (auto simp: loop_body_def Let_def)
    then show ?thesis by simp
  qed
qed

text \<open>The loop returns only with an empty registry and the descriptor at \<open>-1\<close>.\<close>

lemma loop_exit_state:
  "process_events cs st = Finished s \<Longrightarrow> devs s = [] \<and> cmdfd s = -1"
proof (induction cs arbitrary: st)
  case Nil
  then show ?case by (simp split: if_splits)
next
  case (Cons c cs)
  then show ?case by (auto split: if_splits sum.splits)
qed

text \<open>A timeout changes nothing, and any number of timeouts leaves a loop that should run
  running.\<close>

lemma timeouts_idle:
  assumes "devs st \<noteq> [] \<or> cmdfd st \<noteq> -1" and "\<forall>c\<in>set cs. sel c = Select_timeout"
  shows "process_events cs st = Running st"
  using assms by (induction cs) (auto simp: loop_body_def)

text \<open>
  Without a command channel the loop has finished exactly when the registry is empty.
  With a command channel it never finishes in a defined run: the descriptor is only set
  to \<open>-1\<close> by an open that fails, and that open is followed by the undefined \<open>free\<close>.
\<close>

lemma run_without_channel:
  assumes "cmdfd st = -1"
  shows "case process_events cs st of
           Finished s \<Rightarrow> devs s = [] \<and> cmdfd s = -1
         | Running s \<Rightarrow> devs s \<noteq> [] \<and> cmdfd s = -1
         | Undefined f \<Rightarrow> False"
  using assms
proof (induction cs arbitrary: st)
  case Nil
  then show ?case by simp
next
  case (Cons c cs)
  show ?case
  proof (cases "devs st = []")
    case True
    with Cons.prems show ?thesis by simp
  next
    case False
    from Cons.prems have "\<exists>st1. loop_body c st = Inr st1"
      by (cases "sel c") (simp_all add: loop_body_def Let_def)
    then obtain st1 where b: "loop_body c st = Inr st1" ..
    with Cons.prems have "cmdfd st1 = -1"
      using loop_body_cmdfd [OF b] by simp
    from Cons.IH [OF this] False b show ?thesis by simp
  qed
qed

lemma run_with_channel:
  assumes "cmdfd st \<noteq> -1"
  shows "case process_events cs st of
           Finished s \<Rightarrow> False
         | Running s \<Rightarrow> cmdfd s \<noteq> -1
         | Undefined f \<Rightarrow> True"
  using assms
proof (induction cs arbitrary: st)
  case Nil
  then show ?case by simp
next
  case (Cons c cs)
  show ?case
  proof (cases "loop_body c st")
    case (Inl f)
    with Cons.prems show ?thesis by simp
  next
    case (Inr st1)
    with Cons.prems have "cmdfd st1 \<noteq> -1"
      using loop_body_cmdfd [OF Inr] by simp
    from Cons.IH [OF this] Inr Cons.prems show ?thesis by simp
  qed
qed

text \<open>
  Claim C3: the loop halts if and only if the registry is empty and the command channel
  is not configured or has failed for good; it does not halt while either is false. The
  loop condition says so (\<open>loop_exit_state\<close>, \<open>timeouts_idle\<close>, \<open>run_without_channel\<close>).
  But the channel fails in one way only, an open that fails in \<open>open_cmd\<close>, and there the
  code frees \<open>optarg\<close>: a daemon started with one device and the command FIFO waits with
  the device registered, and the cycle in which the FIFO reaches its end and cannot be
  opened again is undefined, with the device still registered.
\<close>

theorem daemon_dies_with_device_registered:
  "start_readers [''/dev/input/event0''] []
      (initial (Some ''/tmp/thd.fifo'') False [Some 3, Some 4, None]) =
   Running
     \<lparr>devs = [\<lparr>devname = ''/dev/input/event0'', fd = 4\<rparr>], command_pipe = Some ''/tmp/thd.fifo'',
      cmdfd = 3, cmdbuffer = [], dump_events = False, open_results = [None],
      trace = [SysOpen ''/tmp/thd.fifo'' 3, SysOpen ''/dev/input/event0'' 4]\<rparr>
   \<and> start_readers [''/dev/input/event0''] [eof_cycle]
      (initial (Some ''/tmp/thd.fifo'') False [Some 3, Some 4, None]) =
   Undefined Free_of_optarg"
  by (simp add: start_readers_def initial_def open_cmd_def add_device_def sys_open_def
      eof_cycle_def read_command_pipe_def sys_read_def MAXCMD_def emit_def loop_body_def
      add_to_fdset_def process_devices_def Let_def)

section \<open>The drain of the command channel\<close>

lemma lines_from_split:
  "lines_from cur s =
     (if NL \<in> set s
      then ((cur @ takeWhile (\<lambda>c. c \<noteq> NL) s) #
              fst (lines_from [] (drop 1 (dropWhile (\<lambda>c. c \<noteq> NL) s))),
            snd (lines_from [] (drop 1 (dropWhile (\<lambda>c. c \<noteq> NL) s))))
      else ([], cur @ s))"
  by (induction s arbitrary: cur) auto

lemma complete_lines_step:
  "NL \<in> set s \<Longrightarrow>
   complete_lines s =
     takeWhile (\<lambda>c. c \<noteq> NL) s # complete_lines (drop 1 (dropWhile (\<lambda>c. c \<noteq> NL) s))
   \<and> unterminated_tail s = unterminated_tail (drop 1 (dropWhile (\<lambda>c. c \<noteq> NL) s))"
  using lines_from_split [of "[]" s] by (simp add: complete_lines_def unterminated_tail_def)

lemma complete_lines_none:
  "NL \<notin> set s \<Longrightarrow> complete_lines s = [] \<and> unterminated_tail s = s"
  using lines_from_split [of "[]" s] by (simp add: complete_lines_def unterminated_tail_def)

text \<open>The complete lines, each with its newline, followed by the tail make up the buffer
  again; neither a line nor the tail holds a newline.\<close>

lemma lines_rejoin:
  "concat (map (\<lambda>l. l @ [NL]) (complete_lines s)) @ unterminated_tail s = s
   \<and> NL \<notin> set (unterminated_tail s) \<and> (\<forall>l\<in>set (complete_lines s). NL \<notin> set l)"
proof (induction "length s" arbitrary: s rule: less_induct)
  case less
  show ?case
  proof (cases "NL \<in> set s")
    case True
    let ?r = "drop 1 (dropWhile (\<lambda>c. c \<noteq> NL) s)"
    from True have ne: "dropWhile (\<lambda>c. c \<noteq> NL) s \<noteq> []"
      by (simp add: dropWhile_eq_Nil_conv)
    then have hd: "hd (dropWhile (\<lambda>c. c \<noteq> NL) s) = NL"
      using hd_dropWhile [of "\<lambda>c. c \<noteq> NL" s] by simp
    from ne hd have d: "dropWhile (\<lambda>c. c \<noteq> NL) s = NL # ?r"
      by (cases "dropWhile (\<lambda>c. c \<noteq> NL) s") simp_all
    have "length ?r < length s"
      using ne length_dropWhile_le [of "\<lambda>c. c \<noteq> NL" s]
      by (cases "dropWhile (\<lambda>c. c \<noteq> NL) s") simp_all
    from less [OF this] have ih:
      "concat (map (\<lambda>l. l @ [NL]) (complete_lines ?r)) @ unterminated_tail ?r = ?r"
      "NL \<notin> set (unterminated_tail ?r)" "\<forall>l\<in>set (complete_lines ?r). NL \<notin> set l"
      by simp_all
    have "takeWhile (\<lambda>c. c \<noteq> NL) s @ NL # ?r = s"
      using takeWhile_dropWhile_id [of "\<lambda>c. c \<noteq> NL" s] d by simp
    moreover have "NL \<notin> set (takeWhile (\<lambda>c. c \<noteq> NL) s)"
      by (auto dest: set_takeWhileD)
    ultimately show ?thesis
      using complete_lines_step [OF True] ih by simp
  next
    case False
    then show ?thesis by (simp add: complete_lines_none)
  qed
qed

lemma sys_open_cmdbuffer_commute:
  "sys_open p (st\<lparr>cmdbuffer := x\<rparr>) = (fst (sys_open p st), (snd (sys_open p st))\<lparr>cmdbuffer := x\<rparr>)"
  by (simp add: sys_open_def Let_def)

lemma add_device_cmdbuffer_commute:
  "add_device p (st\<lparr>cmdbuffer := x\<rparr>) = (add_device p st)\<lparr>cmdbuffer := x\<rparr>"
  by (simp add: add_device_def sys_open_cmdbuffer_commute split_beta emit_def)

lemma remove_device_cmdbuffer_commute:
  "remove_device p (st\<lparr>cmdbuffer := x\<rparr>) = (remove_device p st)\<lparr>cmdbuffer := x\<rparr>"
  by (simp add: remove_device_def emit_def split: option.splits)

lemma process_commandline_cmdbuffer_commute:
  "process_commandline line (st\<lparr>cmdbuffer := x\<rparr>) = (process_commandline line st)\<lparr>cmdbuffer := x\<rparr>"
  by (cases "strtok_c line")
    (auto simp: process_commandline_def Let_def add_device_cmdbuffer_commute
      remove_device_cmdbuffer_commute emit_cmdbuffer_update)

lemma fold_process_commandline_cmdbuffer_commute:
  "fold process_commandline ls (st\<lparr>cmdbuffer := x\<rparr>) = (fold process_commandline ls st)\<lparr>cmdbuffer := x\<rparr>"
  by (induction ls arbitrary: st) (simp_all add: process_commandline_cmdbuffer_commute)

text \<open>
  The loop of the drain, for every buffer content that fits the array: when the loop
  returns, each complete line has been handed to \<open>process_commandline\<close>, in order, and
  the buffer keeps the unterminated tail.
\<close>

lemma scan_lines_refines:
  "int (length (cmdbuffer st)) \<le> MAXCMD \<Longrightarrow> scan_lines st = Inr st' \<Longrightarrow>
   st' =
     (fold process_commandline (complete_lines (cmdbuffer st)) st)
       \<lparr>cmdbuffer := unterminated_tail (cmdbuffer st)\<rparr>"
proof (induction st rule: scan_lines.induct)
  case (1 st)
  show ?case
  proof (cases "NL \<in> set (cmdbuffer st)")
    case True
    let ?line = "takeWhile (\<lambda>c. c \<noteq> NL) (cmdbuffer st)"
    let ?tail = "drop 1 (dropWhile (\<lambda>c. c \<noteq> NL) (cmdbuffer st))"
    have "length ?line + length (dropWhile (\<lambda>c. c \<noteq> NL) (cmdbuffer st)) = length (cmdbuffer st)"
      by (metis length_append takeWhile_dropWhile_id)
    moreover from True have "dropWhile (\<lambda>c. c \<noteq> NL) (cmdbuffer st) \<noteq> []"
      by (simp add: dropWhile_eq_Nil_conv)
    ultimately have "length ?line < length (cmdbuffer st)"
      by (cases "dropWhile (\<lambda>c. c \<noteq> NL) (cmdbuffer st)") simp_all
    with "1.prems"(1) have g: "int (length ?line) < MAXCMD" by simp
    have "length ?tail \<le> length (cmdbuffer st)"
      using length_dropWhile_le [of "\<lambda>c. c \<noteq> NL" "cmdbuffer st"] by simp
    with "1.prems"(1) have b: "int (length ?tail) \<le> MAXCMD" by simp
    from True g "1.prems"(2) have no: "\<not> length ?line < length ?tail"
      and r: "scan_lines ((process_commandline ?line st)\<lparr>cmdbuffer := ?tail\<rparr>) = Inr st'"
      by (subst (asm) scan_lines.simps, simp add: Let_def split: if_splits)+
    have "st' =
        (fold process_commandline (complete_lines ?tail)
           ((process_commandline ?line st)\<lparr>cmdbuffer := ?tail\<rparr>))
          \<lparr>cmdbuffer := unterminated_tail ?tail\<rparr>"
      using "1.IH"(1) [OF True refl refl refl g no _ r] b by simp
    then show ?thesis
      using complete_lines_step [OF True]
      by (simp add: fold_process_commandline_cmdbuffer_commute)
  next
    case False
    with "1.prems"(2) show ?thesis
      by (subst (asm) scan_lines.simps) (simp add: complete_lines_none)
  qed
qed

text \<open>
  The loop returns when no tail is longer than the line before it; so for one line with
  nothing behind its newline. A short line followed by a longer one is an overlapping
  copy.
\<close>

lemma scan_lines_one_line:
  assumes "NL \<notin> set line" and "int (length line) < MAXCMD" and "cmdbuffer st = line @ [NL]"
  shows "scan_lines st = Inr ((process_commandline line st)\<lparr>cmdbuffer := []\<rparr>)"
proof -
  have t: "takeWhile (\<lambda>c. c \<noteq> NL) (line @ [NL]) = line"
    "dropWhile (\<lambda>c. c \<noteq> NL) (line @ [NL]) = [NL]"
    using assms(1) by (induction line) auto
  show ?thesis
    using assms(2,3) t
    by (subst scan_lines.simps, simp add: Let_def, subst scan_lines.simps, simp)
qed

lemma short_line_before_long_line:
  "scan_lines (fifo_open\<lparr>cmdbuffer := ''REMOVE a'' @ [NL] @ ''ADD /dev/input/event0'' @ [NL]\<rparr>) =
   Inl Overlapping_copy"
  by (simp add: scan_lines.simps NL_def MAXCMD_def Let_def)

lemma sys_read_length:
  "sys_read inp count = (n, got) \<Longrightarrow> length got \<le> count \<and> (0 < n \<longrightarrow> n = int (length got))"
  by (auto simp: sys_read_def split: if_splits pipe_read.splits)

text \<open>
  When the array happens to hold a NUL right behind the bytes that read(2) stored, and
  these bytes hold none, the drain appends exactly the bytes read.
\<close>

lemma drain_appends_when_terminated:
  assumes "int (length (cmdbuffer st)) < MAXCMD"
    and "sys_read inp (nat (MAXCMD - int (length (cmdbuffer st)) - 1)) = (n, got)"
    and "n \<noteq> 0"
    and "NUL \<notin> set got"
    and "length got < length stack"
    and "stack ! length got = NUL"
  shows "read_command_pipe inp stack st =
         scan_lines
           ((emit [SysRead (cmdfd st) (MAXCMD - int (length (cmdbuffer st)) - 1)] st)
              \<lparr>cmdbuffer := cmdbuffer st @ got\<rparr>)"
proof -
  let ?k = "nat (MAXCMD - int (length (cmdbuffer st)))"
  let ?buf = "take ?k (got @ drop (length got) stack)"
  have "length got \<le> nat (MAXCMD - int (length (cmdbuffer st)) - 1)"
    using sys_read_length [OF assms(2)] by simp
  with assms(1) have lt: "length got < ?k" by simp
  from assms(5,6) obtain rest where d: "drop (length got) stack = NUL # rest"
    by (metis Cons_nth_drop_Suc)
  from lt obtain j where j: "?k - length got = Suc j"
    by (cases "?k - length got") simp_all
  have buf: "?buf = got @ NUL # take j rest"
    using lt j by (simp add: d)
  have "NUL \<in> set ?buf" "takeWhile (\<lambda>c. c \<noteq> NUL) ?buf = got"
    unfolding buf using assms(4) by (auto simp: takeWhile_tail)
  then show ?thesis
    using assms(1,2,3)
    by (auto simp: read_command_pipe_def Let_def emit_cmdbuffer_update)
qed

text \<open>
  With such a stack the two writes \<open>ADD /dev/input/event0\<close> and a newline give one
  command: nothing is parsed after the first drain, \<open>ADD /dev/input/event0\<close> after the
  second.
\<close>

lemma line_reassembly_clean_stack:
  "read_command_pipe (Read_gets ''ADD /dev/input/event0'') (replicate 32 NUL) fifo_open =
     Inr (fifo_open\<lparr>cmdbuffer := ''ADD /dev/input/event0'', trace := [SysRead 3 1023]\<rparr>)
   \<and> read_command_pipe (Read_gets [NL]) (replicate 32 NUL)
       (fifo_open\<lparr>cmdbuffer := ''ADD /dev/input/event0'', trace := [SysRead 3 1023]\<rparr>) =
     Inr (fifo_open
       \<lparr>devs := [\<lparr>devname = ''/dev/input/event0'', fd = 4\<rparr>], open_results := [Some 5],
        trace := [SysRead 3 1023, SysRead 3 1002, Stderr (Adding_device ''/dev/input/event0''),
                  SysOpen ''/dev/input/event0'' 4]\<rparr>)"
  by (simp add: fifo_open_def read_command_pipe_def sys_read_def MAXCMD_def NUL_def NL_def
      scan_lines.simps process_commandline_def strtok_c_def delim_def remove_device_def
      add_device_def sys_open_def emit_def Let_def)

text \<open>Whenever the drain returns, the buffered length is below \<open>MAXCMD\<close>.\<close>

lemma unterminated_tail_length: "length (unterminated_tail s) \<le> length s"
proof -
  have "length (concat (map (\<lambda>l. l @ [NL]) (complete_lines s)) @ unterminated_tail s) = length s"
    using lines_rejoin [of s] by simp
  then show ?thesis by simp
qed

lemma takeWhile_shorter: "x \<in> set xs \<Longrightarrow> length (takeWhile (\<lambda>c. c \<noteq> x) xs) < length xs"
  by (induction xs) auto

lemma buffer_never_full:
  assumes "int (length (cmdbuffer st)) < MAXCMD"
    and "read_command_pipe inp stack st = Inr st'"
  shows "int (length (cmdbuffer st')) < MAXCMD"
proof -
  let ?k = "nat (MAXCMD - int (length (cmdbuffer st)))"
  obtain n got where rd: "sys_read inp (nat (MAXCMD - int (length (cmdbuffer st)) - 1)) = (n, got)"
    by (cases "sys_read inp (nat (MAXCMD - int (length (cmdbuffer st)) - 1))")
  let ?buf = "take ?k (got @ drop (length got) stack)"
  let ?s = "(emit [SysRead (cmdfd st) (MAXCMD - int (length (cmdbuffer st)) - 1)] st)
      \<lparr>cmdbuffer := cmdbuffer st @ takeWhile (\<lambda>c. c \<noteq> NUL) ?buf\<rparr>"
  show ?thesis
  proof (cases "n = 0")
    case True
    with rd have z: "fst (sys_read inp (nat (MAXCMD - int (length (cmdbuffer st)) - 1))) = 0"
      by simp
    show ?thesis
    proof (cases "open_cmd_result st < 0")
      case neg: True
      from eof_drain_failed_reopen [OF assms(1) z neg, of stack] assms(2) show ?thesis by simp
    next
      case False
      then have "0 \<le> open_cmd_result st" by simp
      from eof_drain_reopened [OF assms(1) z this, of stack] assms(2) show ?thesis
        by (auto simp: MAXCMD_def)
    qed
  next
    case False
    with assms rd have nul: "NUL \<in> set ?buf" and st': "scan_lines ?s = Inr st'"
      by (auto simp: read_command_pipe_def Let_def emit_cmdbuffer_update split: if_splits)
    have "length (takeWhile (\<lambda>c. c \<noteq> NUL) ?buf) < length ?buf"
      using nul by (rule takeWhile_shorter)
    also have "length ?buf \<le> ?k" by simp
    finally have b: "int (length (cmdbuffer ?s)) < MAXCMD"
      using assms(1) by simp
    then have "st' =
        (fold process_commandline (complete_lines (cmdbuffer ?s)) ?s)
          \<lparr>cmdbuffer := unterminated_tail (cmdbuffer ?s)\<rparr>"
      using st' by (intro scan_lines_refines) simp_all
    then have "cmdbuffer st' = unterminated_tail (cmdbuffer ?s)"
      by simp
    then show ?thesis
      using b unterminated_tail_length [of "cmdbuffer ?s"] by simp
  qed
qed

text \<open>
  Claim C1: the drain hands each complete line to the parser and keeps the unterminated
  tail; a command written without its newline is not processed before the newline
  arrives. The loop does so when it returns (\<open>scan_lines_refines\<close>), but the bytes
  appended before it are not the bytes read: \<open>buf\<close> is neither initialised nor terminated behind the bytes
  that read(2) stored, and \<open>strcat\<close> copies up to the first NUL it finds. Here the array
  still holds an earlier, longer read, \<open>ADD /dev/input/by-id/xyz\<close> with its newline. The
  21 bytes \<open>ADD /dev/input/event0\<close> arrive without a newline, and the drain at once
  processes the command \<open>ADD /dev/input/event0xyz\<close>.
\<close>

theorem stale_stack_completes_partial_line:
  "read_command_pipe (Read_gets ''ADD /dev/input/event0'')
      (''ADD /dev/input/by-id/xyz'' @ [NL, NUL]) fifo_open =
     Inr (fifo_open
       \<lparr>devs := [\<lparr>devname = ''/dev/input/event0xyz'', fd = 4\<rparr>], open_results := [Some 5],
        trace := [SysRead 3 1023, Stderr (Adding_device ''/dev/input/event0xyz''),
                  SysOpen ''/dev/input/event0xyz'' 4]\<rparr>)"
  by (simp add: fifo_open_def read_command_pipe_def sys_read_def MAXCMD_def NUL_def NL_def
      scan_lines.simps process_commandline_def strtok_c_def delim_def remove_device_def
      add_device_def sys_open_def emit_def Let_def)

text \<open>
  Claim C2: the drain reads at most \<open>MAXCMD - 1 - L\<close> bytes and appends exactly the bytes
  read. The request is for that many bytes, and the buffered length stays below \<open>MAXCMD\<close>
  (\<open>buffer_never_full\<close>), but what is appended is the C string found in \<open>buf\<close>: two
  bytes are read and four appended; and when read(2) fails, nothing is read and the
  stale contents of the array are appended and processed as a command.
\<close>

theorem drain_appends_more_than_read:
  "read_command_pipe (Read_gets ''AB'') (''xxCD'' @ [NUL]) fifo_open =
     Inr (fifo_open\<lparr>cmdbuffer := ''ABCD'', trace := [SysRead 3 1023]\<rparr>)
   \<and> read_command_pipe Read_fails (''REMOVE /dev/input/event0'' @ [NL, NUL]) one_device =
     Inr (one_device
       \<lparr>devs := [],
        trace := [SysRead 3 1023, Stderr (Removing_device ''/dev/input/event0''), SysClose 4]\<rparr>)"
  by (simp add: fifo_open_def one_device_def read_command_pipe_def sys_read_def MAXCMD_def
      NUL_def NL_def scan_lines.simps process_commandline_def strtok_c_def delim_def
      remove_device_def add_device_def sys_open_def emit_def Let_def)

end
